theory Spec2Isabelle
  imports Main "HOL-Library.Word"
begin

unbundle bit_operations_syntax

section \<open>The AWS VPC route tracker of weave (ipam/tracker/awsvpc.go)\<close>

subsection \<open>Address ranges\<close>

text \<open>
  The package \<open>net/address\<close> of the repository declares the type \<open>CIDR\<close> and its methods
  \<open>Equal\<close>, \<open>End\<close> and \<open>String\<close>; \<open>awsvpc.go\<close> only calls them.
\<close>

text \<open>
  Modelled from the spec: the type \<open>address.CIDR\<close>. "An IP network expressed as (base
  address, prefix length)"; the base address is an IPv4 address, a 32-bit value.
\<close>

record CIDR =
  Addr :: "32 word"
  PrefixLen :: nat

text \<open>
  Modelled from the spec: the derived attributes "a start address and an end address" of
  \<open>address.CIDR\<close>. An address is a 32-bit value, as the base address is. The block has
  \<open>1 << (32 - PrefixLen)\<close> addresses, a number of 32 bits too, and its end is the first
  address after it: the start plus the size, in 32 bits. So the end of a block that reaches
  255.255.255.255 is 0. A shift by 32 bits or more gives 0, which is the size of a block
  whose prefix length is 0, or more than 32.
\<close>

definition Start :: "CIDR \<Rightarrow> 32 word" where
  "Start c = Addr c"

definition Size :: "CIDR \<Rightarrow> 32 word" where
  "Size c = (if PrefixLen c \<le> 32 then push_bit (32 - PrefixLen c) 1 else 0)"

definition End :: "CIDR \<Rightarrow> 32 word" where
  "End c = Addr c + Size c"

text \<open>
  Modelled from the spec: \<open>CIDR.Equal\<close>, "exact equality (same start and end)".
\<close>

definition Equal :: "CIDR \<Rightarrow> CIDR \<Rightarrow> bool" where
  "Equal a b \<longleftrightarrow> Start a = Start b \<and> End a = End b"

text \<open>
  A block is well formed when its prefix length is at most 32. It contains the addresses
  that are less than its size away from its start, all of them when its prefix length is
  0, and two blocks overlap when they share an address, which is when one of them contains
  the start of the other. A range set is what the spec asks of both inputs of the diff,
  "ranges are non-overlapping and sorted by increasing end address", with the end address
  that \<open>removeCommon\<close> compares: \<open>End\<close>.
\<close>

definition valid_CIDR :: "CIDR \<Rightarrow> bool" where
  "valid_CIDR c \<longleftrightarrow> PrefixLen c \<le> 32"

definition Contains :: "CIDR \<Rightarrow> 32 word \<Rightarrow> bool" where
  "Contains c x \<longleftrightarrow> PrefixLen c = 0 \<or> x - Addr c < Size c"

definition Overlaps :: "CIDR \<Rightarrow> CIDR \<Rightarrow> bool" where
  "Overlaps a b \<longleftrightarrow> Contains a (Start b) \<or> Contains b (Start a)"

definition range_set :: "CIDR list \<Rightarrow> bool" where
  "range_set xs \<longleftrightarrow>
     list_all valid_CIDR xs \<and> sorted_wrt (\<lambda>a b. End a \<le> End b \<and> \<not> Overlaps a b) xs"

text \<open>
  The same words of the spec read with the end of a block as a number, the number of its
  last address plus one, which is \<open>2 ^ 32\<close> for a block that reaches 255.255.255.255 and
  is then not what \<open>End\<close> gives.
\<close>

definition End_number :: "CIDR \<Rightarrow> nat" where
  "End_number c = unat (Addr c) + 2 ^ (32 - PrefixLen c)"

definition sorted_by_end :: "CIDR list \<Rightarrow> bool" where
  "sorted_by_end xs \<longleftrightarrow>
     list_all valid_CIDR xs
     \<and> sorted_wrt (\<lambda>a b. End_number a \<le> End_number b \<and> \<not> Overlaps a b) xs"

subsection \<open>removeCommon\<close>

text \<open>
  The loop of \<open>removeCommon\<close>. Its variables are the two indices \<open>i\<close> and \<open>j\<close> and the two
  result slices \<open>newA\<close> and \<open>newB\<close>; \<open>removeCommon_step\<close> is the body of the loop, the
  \<open>switch\<close> with its three cases, and gives the variables after one iteration, where
  \<open>append(newA, a[i])\<close> is \<open>newA @ [a ! i]\<close>. The loop is left when one index reaches the end
  of its slice, and the two \<open>append\<close> calls after the loop add \<open>a[i:]\<close> and \<open>b[j:]\<close>.
\<close>

type_synonym loop_state = "nat \<times> nat \<times> CIDR list \<times> CIDR list"

definition removeCommon_step :: "CIDR list \<Rightarrow> CIDR list \<Rightarrow> loop_state \<Rightarrow> loop_state" where
  "removeCommon_step a b st =
     (case st of (i, j, newA, newB) \<Rightarrow>
        if Equal (a ! i) (b ! j) then (i + 1, j + 1, newA, newB)
        else if End (a ! i) < End (b ! j) then (i + 1, j, newA @ [a ! i], newB)
        else (i, j + 1, newA, newB @ [b ! j]))"

function removeCommon_loop :: "CIDR list \<Rightarrow> CIDR list \<Rightarrow> loop_state \<Rightarrow> CIDR list \<times> CIDR list" where
  "removeCommon_loop a b (i, j, newA, newB) =
     (if i < length a \<and> j < length b then
        removeCommon_loop a b (removeCommon_step a b (i, j, newA, newB))
      else (newA @ drop i a, newB @ drop j b))"
  by pat_completeness auto
termination
  by (relation "measure (\<lambda>(a, b, i, j, newA, newB). (length a - i) + (length b - j))")
    (auto simp: removeCommon_step_def)

definition removeCommon :: "CIDR list \<Rightarrow> CIDR list \<Rightarrow> CIDR list \<times> CIDR list" where
  "removeCommon a b = removeCommon_loop a b (0, 0, [], [])"

declare removeCommon_loop.simps [simp del]

subsection \<open>The merge on the remaining parts of the two slices\<close>

text \<open>
  The same loop on the parts \<open>a[i:]\<close> and \<open>b[j:]\<close> that are still to be read, without the
  results collected so far.
\<close>

fun diff_rest :: "CIDR list \<Rightarrow> CIDR list \<Rightarrow> CIDR list \<times> CIDR list" where
  "diff_rest (x # xs) (y # ys) =
     (if Equal x y then diff_rest xs ys
      else if End x < End y then (x # fst (diff_rest xs (y # ys)), snd (diff_rest xs (y # ys)))
      else (fst (diff_rest (x # xs) ys), y # snd (diff_rest (x # xs) ys)))"
| "diff_rest xs ys = (xs, ys)"

subsection \<open>The string of a block\<close>

text \<open>
  Go's \<open>uitoa\<close> (package \<open>net\<close>, also what \<open>%d\<close> prints for a number that is not
  negative): the decimal digits of \<open>val\<close>, written from the last one to the first.
\<close>

definition digit :: "nat \<Rightarrow> char" where
  "digit d = char_of (48 + d)"

fun uitoa_loop :: "nat \<Rightarrow> string \<Rightarrow> string" where
  "uitoa_loop val buf =
     (if val \<ge> 10 then uitoa_loop (val div 10) (digit (val mod 10) # buf)
      else digit val # buf)"

definition uitoa :: "nat \<Rightarrow> string" where
  "uitoa val = (if val = 0 then ''0'' else uitoa_loop val [])"

declare uitoa_loop.simps [simp del]

text \<open>
  Modelled from the spec: \<open>CIDR.String\<close>, the "canonical string form used as the key
  passed to routing backends", written as in the spec's examples (\<open>10.0.0.0/24\<close>): the four
  bytes of the base address in decimal, first the most significant, with dots between
  them, a slash and the prefix length in decimal.
\<close>

definition octet :: "32 word \<Rightarrow> nat \<Rightarrow> nat" where
  "octet a k = (unat a div 256 ^ k) mod 256"

definition CIDR_String :: "CIDR \<Rightarrow> string" where
  "CIDR_String c =
     uitoa (octet (Addr c) 3) @ ''.'' @ uitoa (octet (Addr c) 2) @ ''.'' @
     uitoa (octet (Addr c) 1) @ ''.'' @ uitoa (octet (Addr c) 0) @ ''/'' @ uitoa (PrefixLen c)"

subsection \<open>parseCIDR\<close>

text \<open>
  A Go \<open>error\<close> is modelled by its message, which is all that \<open>fmt.Errorf("... %s", err)\<close>
  reads of it. \<open>net.IP\<close> and \<open>net.IPMask\<close> are byte slices, \<open>net.IPNet\<close> is a struct of
  the two.
\<close>

type_synonym error = string

type_synonym byte = "8 word"

type_synonym IP = "byte list"

type_synonym IPMask = "byte list"

record IPNet =
  IP :: IP
  Mask :: IPMask

text \<open>
  \<open>parseCIDR\<close> calls \<open>net.ParseCIDR\<close> of Go's standard library, which is the first argument
  here. It returns the error of \<open>net.ParseCIDR\<close> as it is, and otherwise the network with
  its \<open>IP\<close> field replaced by the parsed address.
\<close>

definition parseCIDR :: "(string \<Rightarrow> error + IP \<times> IPNet) \<Rightarrow> string \<Rightarrow> error + IPNet" where
  "parseCIDR net_ParseCIDR cidr =
     (case net_ParseCIDR cidr of
        Inl err \<Rightarrow> Inl err
      | Inr (ip, ipnet) \<Rightarrow> Inr (ipnet\<lparr>IP := ip\<rparr>))"

subsection \<open>Package net of Go's standard library\<close>

text \<open>
  \<open>net.ParseCIDR\<close> and \<open>IPNet.String\<close> are not code of the repository. They are modelled
  here, after the source of package \<open>net\<close> in the Go release of the time the tracker was
  written (Go 1.6), as far as the strings of IPv4 blocks need them, to state what parsing
  the string of a block and writing the result gives. Which other strings \<open>net.ParseCIDR\<close>
  accepts differs between Go releases (a number with leading zeros is accepted by this
  one), so \<open>parseCIDR\<close> above takes \<open>net.ParseCIDR\<close> as an argument and nothing is
  stated here about strings that are not the string of a block.
\<close>

text \<open>
  \<open>dtoi\<close>: a decimal number at the start of a string. The Go function takes the string
  and the index to start at, and returns the number, the index after its last digit and
  whether it read a number; here it takes the part of the string from that index on and
  returns the part after the last digit. A number of \<open>big\<close> or more is refused.
\<close>

definition big :: nat where
  "big = 0xFFFFFF"

definition isDigit :: "char \<Rightarrow> bool" where
  "isDigit c \<longleftrightarrow> (48::nat) \<le> of_char c \<and> (of_char c :: nat) \<le> 57"

fun dtoi_loop :: "nat \<Rightarrow> string \<Rightarrow> nat \<times> string \<times> bool" where
  "dtoi_loop n [] = (n, [], True)"
| "dtoi_loop n (c # cs) =
     (if isDigit c then
        (let n' = n * 10 + (of_char c - 48)
         in if n' \<ge> big then (0, c # cs, False) else dtoi_loop n' cs)
      else (n, c # cs, True))"

definition dtoi :: "string \<Rightarrow> nat \<times> string \<times> bool" where
  "dtoi s =
     (case dtoi_loop 0 s of
        (n, rest, ok) \<Rightarrow>
          if \<not> ok then (0, rest, False)
          else if length rest = length s then (0, rest, False)
          else (n, rest, True))"

text \<open>
  \<open>parseIPv4\<close>: four decimal numbers of at most 255 with dots between them. The result is
  the address in its 16-byte form, or \<open>nil\<close>, the empty list here, when the string is
  not such an address.
\<close>

definition IPv4len :: nat where "IPv4len = 4"

definition IPv6len :: nat where "IPv6len = 16"

definition v4InV6Prefix :: "byte list" where
  "v4InV6Prefix = [0, 0, 0, 0, 0, 0, 0, 0, 0, 0, 0xff, 0xff]"

definition IPv4 :: "byte \<Rightarrow> byte \<Rightarrow> byte \<Rightarrow> byte \<Rightarrow> IP" where
  "IPv4 a b c d = v4InV6Prefix @ [a, b, c, d]"

function parseIPv4_loop :: "nat \<Rightarrow> string \<Rightarrow> byte list \<Rightarrow> IP" where
  "parseIPv4_loop j s p =
     (if j < IPv4len then
        (if s = [] then []
         else if j > 0 \<and> hd s \<noteq> CHR ''.'' then []
         else (case dtoi (if j > 0 then tl s else s) of
                 (n, rest, ok) \<Rightarrow>
                   if \<not> ok \<or> n > 0xFF then []
                   else parseIPv4_loop (j + 1) rest (p[j := of_nat n])))
      else if s \<noteq> [] then []
      else IPv4 (p ! 0) (p ! 1) (p ! 2) (p ! 3))"
  by pat_completeness auto
termination
  by (relation "measure (\<lambda>(j, s, p). IPv4len - j)") auto

declare parseIPv4_loop.simps [simp del]

definition parseIPv4 :: "string \<Rightarrow> IP" where
  "parseIPv4 s = parseIPv4_loop 0 s (replicate IPv4len 0)"

text \<open>
  \<open>CIDRMask ones bits\<close>: the mask of \<open>bits\<close> bits that starts with \<open>ones\<close> bits set.
\<close>

fun CIDRMask_loop :: "nat \<Rightarrow> nat \<Rightarrow> byte list" where
  "CIDRMask_loop 0 n = []"
| "CIDRMask_loop (Suc l) n =
     (if n \<ge> 8 then 0xff # CIDRMask_loop l (n - 8)
      else NOT (drop_bit n 0xff) # CIDRMask_loop l 0)"

definition CIDRMask :: "nat \<Rightarrow> nat \<Rightarrow> IPMask" where
  "CIDRMask ones bits =
     (if bits \<noteq> 8 * IPv4len \<and> bits \<noteq> 8 * IPv6len then []
      else if ones > bits then []
      else CIDRMask_loop (bits div 8) ones)"

text \<open>
  \<open>IP.Mask\<close>: the address with the bits outside the mask cleared.
\<close>

definition allFF :: "byte list \<Rightarrow> bool" where
  "allFF b = list_all (\<lambda>c. c = 0xff) b"

definition IP_Mask :: "IP \<Rightarrow> IPMask \<Rightarrow> IP" where
  "IP_Mask ip msk =
     (let mask1 = (if length msk = IPv6len \<and> length ip = IPv4len \<and> allFF (take 12 msk)
                   then drop 12 msk else msk);
          ip1 = (if length mask1 = IPv4len \<and> length ip = IPv6len \<and> take 12 ip = v4InV6Prefix
                 then drop 12 ip else ip)
      in if length ip1 \<noteq> length mask1 then [] else map2 (AND) ip1 mask1)"

text \<open>
  \<open>ParseCIDR\<close>: the string is cut at its first slash; the part before it is parsed as an
  IPv4 address and, if that fails, as an IPv6 address; the part after it must be a decimal
  number of at most 32, or 128 for an IPv6 address, and nothing else. An error of type
  \<open>*net.ParseError\<close> has the message \<open>"invalid " + Type + ": " + Text\<close>. What package
  \<open>net\<close> does with IPv6 addresses and with masks that are not a prefix of ones is not
  modelled: \<open>parseIPv6\<close> and the texts of such addresses and masks are the fields of the
  argument \<open>other\<close>.
\<close>

fun byteIndex :: "string \<Rightarrow> char \<Rightarrow> nat option" where
  "byteIndex [] c = None"
| "byteIndex (x # xs) c = (if x = c then Some 0 else map_option Suc (byteIndex xs c))"

definition ParseError :: "string \<Rightarrow> string \<Rightarrow> error" where
  "ParseError typ text = ''invalid '' @ typ @ '': '' @ text"

record net_other =
  parseIPv6 :: "string \<Rightarrow> IP"
  IPv6_String :: "IP \<Rightarrow> string"
  IPMask_String :: "IPMask \<Rightarrow> string"

definition ParseCIDR :: "net_other \<Rightarrow> string \<Rightarrow> error + IP \<times> IPNet" where
  "ParseCIDR other s =
     (case byteIndex s CHR ''/'' of
        None \<Rightarrow> Inl (ParseError ''CIDR address'' s)
      | Some i \<Rightarrow>
          (let addr = take i s;
               msk = drop (i + 1) s;
               ip4 = parseIPv4 addr;
               iplen = (if ip4 = [] then IPv6len else IPv4len);
               ip = (if ip4 = [] then parseIPv6 other addr else ip4)
           in case dtoi msk of
                (n, rest, ok) \<Rightarrow>
                  if ip = [] \<or> \<not> ok \<or> rest \<noteq> [] \<or> n > 8 * iplen
                  then Inl (ParseError ''CIDR address'' s)
                  else (let m = CIDRMask n (8 * iplen)
                        in Inr (ip, \<lparr>IP = IP_Mask ip m, Mask = m\<rparr>))))"

text \<open>
  \<open>IPNet.String\<close>: the address, a slash and the number of ones of the mask, with
  \<open>IP.To4\<close>, \<open>IP.String\<close>, \<open>simpleMaskLength\<close> (\<open>None\<close> for its result \<open>-1\<close>) and
  \<open>networkNumberAndMask\<close> (\<open>None\<close> for \<open>nil, nil\<close>).
\<close>

definition To4 :: "IP \<Rightarrow> IP" where
  "To4 ip =
     (if length ip = IPv4len then ip
      else if length ip = IPv6len \<and> list_all (\<lambda>b. b = 0) (take 10 ip)
              \<and> ip ! 10 = 0xff \<and> ip ! 11 = 0xff
      then drop 12 ip
      else [])"

definition IP_String :: "net_other \<Rightarrow> IP \<Rightarrow> string" where
  "IP_String other ip =
     (if length ip = 0 then ''<nil>''
      else (let p4 = To4 ip in
            if length p4 = IPv4len then
              uitoa (unat (p4 ! 0)) @ ''.'' @ uitoa (unat (p4 ! 1)) @ ''.'' @
              uitoa (unat (p4 ! 2)) @ ''.'' @ uitoa (unat (p4 ! 3))
            else if length ip \<noteq> IPv6len then ''?''
            else IPv6_String other ip))"

function ones_loop :: "byte \<Rightarrow> nat \<Rightarrow> nat \<times> byte" where
  "ones_loop v n = (if v AND 0x80 \<noteq> 0 then ones_loop (push_bit 1 v) (n + 1) else (n, v))"
  by pat_completeness auto
termination
proof (relation "measure (\<lambda>(v, n). unat v)")
  show "wf (measure (\<lambda>(v :: byte, n :: nat). unat v))"
    by simp
next
  fix v :: byte and n :: nat
  assume "v AND 0x80 \<noteq> 0"
  then have "bit v 7"
    using and_exp_eq_0_iff_not_bit [of v 7] by simp
  then have "bit (unat v) 7"
    by (simp add: bit_unsigned_iff)
  then have "odd (unat v div 2 ^ 7)"
    by (simp add: bit_iff_odd)
  then have "0 < unat v div 2 ^ 7"
    by (rule odd_pos)
  then have ge: "128 \<le> unat v"
    by (simp add: div_greater_zero_iff)
  have lt: "unat v < 256"
    using unsigned_less [of v] by simp
  have "unat (push_bit 1 v) = (2 * unat v) mod 256"
    by (simp add: unat_word_ariths mult.commute)
  also have "\<dots> = (2 * unat v - 256) mod 256"
    using ge by (simp add: le_mod_geq)
  also have "\<dots> = 2 * unat v - 256"
    using lt by simp
  finally have "unat (push_bit 1 v) < unat v"
    using lt ge by arith
  then show "((push_bit 1 v, n + 1), (v, n)) \<in> measure (\<lambda>(v, n). unat v)"
    by simp
qed

declare ones_loop.simps [simp del]

fun simpleMaskLength_loop :: "IPMask \<Rightarrow> nat \<Rightarrow> nat option" where
  "simpleMaskLength_loop [] n = Some n"
| "simpleMaskLength_loop (v # rest) n =
     (if v = 0xff then simpleMaskLength_loop rest (n + 8)
      else (case ones_loop v n of
              (n1, v1) \<Rightarrow>
                if v1 \<noteq> 0 then None
                else if list_ex (\<lambda>b. b \<noteq> 0) rest then None
                else Some n1))"

definition simpleMaskLength :: "IPMask \<Rightarrow> nat option" where
  "simpleMaskLength msk = simpleMaskLength_loop msk 0"

definition networkNumberAndMask :: "IPNet \<Rightarrow> (IP \<times> IPMask) option" where
  "networkNumberAndMask n =
     (let ip4 = To4 (IP n);
          ip = (if ip4 = [] then IP n else ip4)
      in if ip4 = [] \<and> length ip \<noteq> IPv6len then None
         else if length (Mask n) = IPv4len then
           (if length ip \<noteq> IPv4len then None else Some (ip, Mask n))
         else if length (Mask n) = IPv6len then
           (if length ip = IPv4len then Some (ip, drop 12 (Mask n)) else Some (ip, Mask n))
         else None)"

definition IPNet_String :: "net_other \<Rightarrow> IPNet \<Rightarrow> string" where
  "IPNet_String other n =
     (case networkNumberAndMask n of
        None \<Rightarrow> ''<nil>''
      | Some (nn, m) \<Rightarrow>
          (case simpleMaskLength m of
             None \<Rightarrow> IP_String other nn @ ''/'' @ IPMask_String other m
           | Some l \<Rightarrow> IP_String other nn @ ''/'' @ uitoa l))"

text \<open>
  For the proofs: a string at whose start \<open>dtoi\<close> stops reading, and four numbers with
  dots between them.
\<close>

definition stops :: "string \<Rightarrow> bool" where
  "stops rest \<longleftrightarrow> rest = [] \<or> \<not> isDigit (hd rest)"

definition dotted :: "nat \<Rightarrow> nat \<Rightarrow> nat \<Rightarrow> nat \<Rightarrow> string" where
  "dotted a b c d = uitoa a @ ''.'' @ uitoa b @ ''.'' @ uitoa c @ ''.'' @ uitoa d"

text \<open>
  The network that the string of a block is parsed to: the four bytes of its address, the
  first byte the most significant, and the mask of its prefix length.
\<close>

definition parsed :: "CIDR \<Rightarrow> IPNet" where
  "parsed c =
     \<lparr>IP = IPv4 (of_nat (octet (Addr c) 3)) (of_nat (octet (Addr c) 2))
            (of_nat (octet (Addr c) 1)) (of_nat (octet (Addr c) 0)),
      Mask = CIDRMask (PrefixLen c) 32\<rparr>"

subsection \<open>The tracker and what it calls\<close>

text \<open>
  The struct \<open>AWSVPCTracker\<close>; \<open>'e\<close> is the type of the EC2 client \<open>*ec2.EC2\<close>.
\<close>

record 'e AWSVPCTracker =
  ec2 :: 'e
  instanceID :: string
  routeTableID :: string
  linkIndex :: int

text \<open>
  The arguments of the calls: \<open>ec2.CreateRouteInput\<close> and \<open>ec2.DeleteRouteInput\<close> with the
  fields the tracker sets, and \<open>netlink.Route\<close> likewise.
\<close>

record CreateRouteInput =
  RouteTableId :: string
  InstanceId :: string
  DestinationCidrBlock :: string

record DeleteRouteInput =
  RouteTableId :: string
  DestinationCidrBlock :: string

datatype Scope = SCOPE_UNIVERSE | SCOPE_SITE | SCOPE_LINK | SCOPE_HOST | SCOPE_NOWHERE

record Route =
  LinkIndex :: int
  Dst :: IPNet
  Scope :: Scope

text \<open>
  The code outside the repository that the tracker calls: the AWS SDK (\<open>CreateRoute\<close> and
  \<open>DeleteRoute\<close> of the EC2 client), \<open>netlink\<close> (\<open>RouteAdd\<close> and \<open>RouteDel\<close>) and
  \<open>net.ParseCIDR\<close>. The first four act on a world \<open>'w\<close>, the route tables of the VPC and
  of the host with whatever else decides their result, and return \<open>None\<close> for a \<open>nil\<close>
  error. The output values \<open>*ec2.CreateRouteOutput\<close> and \<open>*ec2.DeleteRouteOutput\<close> are left
  out: \<open>HandleUpdate\<close> discards them.
\<close>

record ('e, 'w) externals =
  ec2_CreateRoute :: "'e \<Rightarrow> CreateRouteInput \<Rightarrow> 'w \<Rightarrow> error option \<times> 'w"
  ec2_DeleteRoute :: "'e \<Rightarrow> DeleteRouteInput \<Rightarrow> 'w \<Rightarrow> error option \<times> 'w"
  netlink_RouteAdd :: "Route \<Rightarrow> 'w \<Rightarrow> error option \<times> 'w"
  netlink_RouteDel :: "Route \<Rightarrow> 'w \<Rightarrow> error option \<times> 'w"
  net_ParseCIDR :: "string \<Rightarrow> error + IP \<times> IPNet"

text \<open>
  The four route operations of the spec are the four methods \<open>createVPCRoute\<close>,
  \<open>createHostRoute\<close>, \<open>deleteVPCRoute\<close> and \<open>deleteHostRoute\<close>, each with the range string
  it is called with.
\<close>

datatype op =
  AddCloudRoute string | AddHostRoute string | RemoveCloudRoute string | RemoveHostRoute string

text \<open>
  The state \<open>HandleUpdate\<close> runs in: the tracker \<open>t\<close> points to, the world, and the list
  \<open>issued\<close> of the calls of the four methods made so far, each with its result. The code
  keeps no such list; it is here so that the order of the calls can be stated.
\<close>

record ('e, 'w) state =
  tracker :: "'e AWSVPCTracker"
  world :: 'w
  issued :: "(op \<times> error option) list"

definition createVPCRoute ::
  "('e, 'w) externals \<Rightarrow> string \<Rightarrow> ('e, 'w) state \<Rightarrow> error option \<times> ('e, 'w) state" where
  "createVPCRoute ext cidr s =
     (let route = \<lparr>CreateRouteInput.RouteTableId = routeTableID (tracker s),
                   InstanceId = instanceID (tracker s),
                   CreateRouteInput.DestinationCidrBlock = cidr\<rparr>
      in case ec2_CreateRoute ext (ec2 (tracker s)) route (world s) of
           (err, w) \<Rightarrow> (err, s\<lparr>world := w\<rparr>))"

definition createHostRoute ::
  "('e, 'w) externals \<Rightarrow> string \<Rightarrow> ('e, 'w) state \<Rightarrow> error option \<times> ('e, 'w) state" where
  "createHostRoute ext cidr s =
     (case parseCIDR (net_ParseCIDR ext) cidr of
        Inl err \<Rightarrow> (Some err, s)
      | Inr dst \<Rightarrow>
          (let route = \<lparr>LinkIndex = linkIndex (tracker s), Dst = dst, Scope = SCOPE_LINK\<rparr>
           in case netlink_RouteAdd ext route (world s) of
                (err, w) \<Rightarrow> (err, s\<lparr>world := w\<rparr>)))"

definition deleteVPCRoute ::
  "('e, 'w) externals \<Rightarrow> string \<Rightarrow> ('e, 'w) state \<Rightarrow> error option \<times> ('e, 'w) state" where
  "deleteVPCRoute ext cidr s =
     (let route = \<lparr>DeleteRouteInput.RouteTableId = routeTableID (tracker s),
                   DeleteRouteInput.DestinationCidrBlock = cidr\<rparr>
      in case ec2_DeleteRoute ext (ec2 (tracker s)) route (world s) of
           (err, w) \<Rightarrow> (err, s\<lparr>world := w\<rparr>))"

definition deleteHostRoute ::
  "('e, 'w) externals \<Rightarrow> string \<Rightarrow> ('e, 'w) state \<Rightarrow> error option \<times> ('e, 'w) state" where
  "deleteHostRoute ext cidr s =
     (case parseCIDR (net_ParseCIDR ext) cidr of
        Inl err \<Rightarrow> (Some err, s)
      | Inr dst \<Rightarrow>
          (let route = \<lparr>LinkIndex = linkIndex (tracker s), Dst = dst, Scope = SCOPE_LINK\<rparr>
           in case netlink_RouteDel ext route (world s) of
                (err, w) \<Rightarrow> (err, s\<lparr>world := w\<rparr>)))"

subsection \<open>HandleUpdate\<close>

text \<open>
  \<open>logged c m\<close> runs the method call \<open>m\<close> and appends the operation \<open>c\<close> with its result
  to \<open>issued\<close>.
\<close>

definition logged ::
  "op \<Rightarrow> (('e, 'w) state \<Rightarrow> error option \<times> ('e, 'w) state) \<Rightarrow>
     ('e, 'w) state \<Rightarrow> error option \<times> ('e, 'w) state" where
  "logged c m s = (case m s of (err, s') \<Rightarrow> (err, s'\<lparr>issued := issued s' @ [(c, err)]\<rparr>))"

text \<open>
  The two loops of \<open>HandleUpdate\<close>. A \<open>return\<close> in the body of a loop ends the recursion
  with the error; \<open>fmt.Errorf("createVPCRoutes failed: %s", err)\<close> is the text before
  \<open>%s\<close> followed by the message of \<open>err\<close>. The calls of \<open>t.debugf\<close> write to the log of
  the process and are left out.
\<close>

fun add_entries ::
  "('e, 'w) externals \<Rightarrow> CIDR list \<Rightarrow> ('e, 'w) state \<Rightarrow> error option \<times> ('e, 'w) state" where
  "add_entries ext [] s = (None, s)"
| "add_entries ext (cidr # rest) s =
     (let cidrStr = CIDR_String cidr in
      case logged (AddCloudRoute cidrStr) (createVPCRoute ext cidrStr) s of
        (Some err, s1) \<Rightarrow> (Some (''createVPCRoutes failed: '' @ err), s1)
      | (None, s1) \<Rightarrow>
          (case logged (AddHostRoute cidrStr) (createHostRoute ext cidrStr) s1 of
             (Some err, s2) \<Rightarrow> (Some (''createHostRoute failed: '' @ err), s2)
           | (None, s2) \<Rightarrow> add_entries ext rest s2))"

fun remove_entries ::
  "('e, 'w) externals \<Rightarrow> CIDR list \<Rightarrow> ('e, 'w) state \<Rightarrow> error option \<times> ('e, 'w) state" where
  "remove_entries ext [] s = (None, s)"
| "remove_entries ext (cidr # rest) s =
     (let cidrStr = CIDR_String cidr in
      case logged (RemoveCloudRoute cidrStr) (deleteVPCRoute ext cidrStr) s of
        (Some err, s1) \<Rightarrow> (Some (''deleteVPCRoute failed: '' @ err), s1)
      | (None, s1) \<Rightarrow>
          (case logged (RemoveHostRoute cidrStr) (deleteHostRoute ext cidrStr) s1 of
             (Some err, s2) \<Rightarrow> (Some (''deleteHostRoute failed: '' @ err), s2)
           | (None, s2) \<Rightarrow> remove_entries ext rest s2))"

text \<open>
  \<open>HandleUpdate\<close>. \<open>address.NewCIDRs\<close>, which turns the ranges it is given into blocks,
  is code of the repository that \<open>awsvpc.go\<close> only calls, and the spec does not describe it:
  it is the argument \<open>NewCIDRs\<close>, and \<open>'r\<close> is the type \<open>address.Range\<close>. The two results
  of \<open>removeCommon\<close>, which the code names \<open>prev\<close> and \<open>curr\<close> again, are \<open>onlyPrev\<close> and
  \<open>onlyCurr\<close> here, as in the spec.
\<close>

definition HandleUpdate ::
  "('e, 'w) externals \<Rightarrow> ('r list \<Rightarrow> CIDR list) \<Rightarrow> 'r list \<Rightarrow> 'r list \<Rightarrow>
     ('e, 'w) state \<Rightarrow> error option \<times> ('e, 'w) state" where
  "HandleUpdate ext NewCIDRs prevRanges currRanges s =
     (case removeCommon (NewCIDRs prevRanges) (NewCIDRs currRanges) of
        (onlyPrev, onlyCurr) \<Rightarrow>
          (case add_entries ext onlyCurr s of
             (Some err, s1) \<Rightarrow> (Some err, s1)
           | (None, s1) \<Rightarrow> remove_entries ext onlyPrev s1))"

subsection \<open>The order of the operations, as the spec gives it\<close>

text \<open>
  "For each range in onlyCurr, in sequence: add to the cloud-provider table, then add to
  the host kernel table", then "for each range in onlyPrev, in sequence: remove from the
  cloud-provider table, then remove from the host kernel table".
\<close>

definition add_ops :: "CIDR list \<Rightarrow> op list" where
  "add_ops cs = concat (map (\<lambda>c. [AddCloudRoute (CIDR_String c), AddHostRoute (CIDR_String c)]) cs)"

definition remove_ops :: "CIDR list \<Rightarrow> op list" where
  "remove_ops cs =
     concat (map (\<lambda>c. [RemoveCloudRoute (CIDR_String c), RemoveHostRoute (CIDR_String c)]) cs)"

definition canonical_ops :: "CIDR list \<Rightarrow> CIDR list \<Rightarrow> op list" where
  "canonical_ops a b = add_ops (snd (removeCommon a b)) @ remove_ops (fst (removeCommon a b))"

text \<open>
  The text that \<open>HandleUpdate\<close> puts before the message of a failed operation.
\<close>

fun failed_prefix :: "op \<Rightarrow> string" where
  "failed_prefix (AddCloudRoute r) = ''createVPCRoutes failed: ''"
| "failed_prefix (AddHostRoute r) = ''createHostRoute failed: ''"
| "failed_prefix (RemoveCloudRoute r) = ''deleteVPCRoute failed: ''"
| "failed_prefix (RemoveHostRoute r) = ''deleteHostRoute failed: ''"

text \<open>
  \<open>run ops before after r\<close>: between the logs \<open>before\<close> and \<open>after\<close> a call that returned
  \<open>r\<close> issued the operations \<open>ops\<close> in order. With \<open>r = None\<close> it issued all of them and
  all succeeded; with \<open>r = Some err\<close> it issued the first \<open>k\<close> with success, then the next
  one, which failed with a message \<open>m\<close>, and nothing after it, and \<open>err\<close> is the prefix of
  that operation followed by \<open>m\<close>.
\<close>

definition run :: "op list \<Rightarrow> (op \<times> error option) list \<Rightarrow> (op \<times> error option) list \<Rightarrow>
    error option \<Rightarrow> bool" where
  "run ops before after r =
     (case r of
        None \<Rightarrow> after = before @ map (\<lambda>c. (c, None)) ops
      | Some err \<Rightarrow>
          (\<exists>k m. k < length ops
             \<and> after = before @ map (\<lambda>c. (c, None)) (take k ops) @ [(ops ! k, Some m)]
             \<and> err = failed_prefix (ops ! k) @ m))"

subsection \<open>Route tables as sets of range strings\<close>

text \<open>
  A world whose route tables can be read: the route table of the VPC and the route table
  of the host are sets of range strings. A call that succeeds inserts or deletes the string of its
  range, for the host table the string of the network \<open>netlink\<close> is given. Whether a call
  succeeds is read from \<open>script\<close>, the results of the calls to come, so that every
  sequence of results is covered; when the script is used up, a call succeeds. A call that
  fails leaves the tables as they are.
\<close>

record tables =
  cloud :: "string set"
  host :: "string set"
  script :: "error option list"

definition table_call :: "(tables \<Rightarrow> tables) \<Rightarrow> tables \<Rightarrow> error option \<times> tables" where
  "table_call f w =
     (case script w of
        [] \<Rightarrow> (None, f w)
      | None # rest \<Rightarrow> (None, f (w\<lparr>script := rest\<rparr>))
      | Some err # rest \<Rightarrow> (Some err, w\<lparr>script := rest\<rparr>))"

definition table_externals :: "net_other \<Rightarrow> ('e, tables) externals" where
  "table_externals other =
     \<lparr>ec2_CreateRoute = (\<lambda>client input.
        table_call (\<lambda>w. w\<lparr>cloud := insert (CreateRouteInput.DestinationCidrBlock input) (cloud w)\<rparr>)),
      ec2_DeleteRoute = (\<lambda>client input.
        table_call (\<lambda>w. w\<lparr>cloud := cloud w - {DeleteRouteInput.DestinationCidrBlock input}\<rparr>)),
      netlink_RouteAdd = (\<lambda>route.
        table_call (\<lambda>w. w\<lparr>host := insert (IPNet_String other (Dst route)) (host w)\<rparr>)),
      netlink_RouteDel = (\<lambda>route.
        table_call (\<lambda>w. w\<lparr>host := host w - {IPNet_String other (Dst route)}\<rparr>)),
      net_ParseCIDR = ParseCIDR other\<rparr>"

text \<open>
  For the examples: no string is an IPv6 address, a tracker, and a state that starts with
  the same routes in both tables and nothing issued.
\<close>

definition ex_other :: net_other where
  "ex_other = \<lparr>parseIPv6 = (\<lambda>s. []), IPv6_String = (\<lambda>ip. ''?''), IPMask_String = (\<lambda>m. ''?'')\<rparr>"

definition ex_state :: "string set \<Rightarrow> error option list \<Rightarrow> (unit, tables) state" where
  "ex_state routes outcomes =
     \<lparr>tracker = \<lparr>ec2 = (), instanceID = ''i-1'', routeTableID = ''rtb-1'', linkIndex = 7\<rparr>,
      world = \<lparr>cloud = routes, host = routes, script = outcomes\<rparr>,
      issued = []\<rparr>"

subsection \<open>The example of the spec\<close>

text \<open>
  prev = [10.0.0.0/24, 10.0.2.0/24] and curr = [10.0.1.0/24, 10.0.2.0/24]; 10.0.0.128/25,
  which ends where 10.0.0.0/24 ends; and 255.255.255.0/24, which reaches 255.255.255.255.
\<close>

definition ex_block0 :: CIDR where
  "ex_block0 = \<lparr>Addr = 0x0A000000, PrefixLen = 24\<rparr>"

definition ex_block1 :: CIDR where
  "ex_block1 = \<lparr>Addr = 0x0A000100, PrefixLen = 24\<rparr>"

definition ex_block2 :: CIDR where
  "ex_block2 = \<lparr>Addr = 0x0A000200, PrefixLen = 24\<rparr>"

definition ex_half :: CIDR where
  "ex_half = \<lparr>Addr = 0x0A000080, PrefixLen = 25\<rparr>"

definition ex_top :: CIDR where
  "ex_top = \<lparr>Addr = 0xFFFFFF00, PrefixLen = 24\<rparr>"

definition ex_prev :: "CIDR list" where
  "ex_prev = [ex_block0, ex_block2]"


section \<open>Properties of the diff\<close>

lemma removeCommon_loop_continue:
  assumes "i < length a" and "j < length b"
  shows "removeCommon_loop a b (i, j, newA, newB) =
           removeCommon_loop a b (removeCommon_step a b (i, j, newA, newB))"
  using assms by (subst removeCommon_loop.simps) simp

lemma removeCommon_loop_leave:
  assumes "\<not> (i < length a \<and> j < length b)"
  shows "removeCommon_loop a b (i, j, newA, newB) = (newA @ drop i a, newB @ drop j b)"
  by (subst removeCommon_loop.simps, rule if_not_P, rule assms)

lemma removeCommon_loop_diff_rest:
  "removeCommon_loop a b (i, j, newA, newB) =
     (newA @ fst (diff_rest (drop i a) (drop j b)), newB @ snd (diff_rest (drop i a) (drop j b)))"
proof (induction a b "(i, j, newA, newB)" arbitrary: i j newA newB rule: removeCommon_loop.induct)
  case (1 a b i j newA newB)
  show ?case
  proof (cases "i < length a \<and> j < length b")
    case True
    then have da: "drop i a = a ! i # drop (Suc i) a" and db: "drop j b = b ! j # drop (Suc j) b"
      by (simp_all add: Cons_nth_drop_Suc)
    have c: "removeCommon_loop a b (i, j, newA, newB) =
               removeCommon_loop a b (removeCommon_step a b (i, j, newA, newB))"
      using True by (intro removeCommon_loop_continue) simp_all
    show ?thesis
    proof (cases "Equal (a ! i) (b ! j)")
      case eq: True
      then have st: "removeCommon_step a b (i, j, newA, newB) = (i + 1, j + 1, newA, newB)"
        by (simp add: removeCommon_step_def)
      have "removeCommon_loop a b (i + 1, j + 1, newA, newB) =
              (newA @ fst (diff_rest (drop (i + 1) a) (drop (j + 1) b)),
               newB @ snd (diff_rest (drop (i + 1) a) (drop (j + 1) b)))"
        using True st by (intro "1.hyps") simp_all
      then show ?thesis using eq by (simp add: c st da db)
    next
      case neq: False
      show ?thesis
      proof (cases "End (a ! i) < End (b ! j)")
        case lt: True
        then have st: "removeCommon_step a b (i, j, newA, newB) = (i + 1, j, newA @ [a ! i], newB)"
          using neq by (simp add: removeCommon_step_def)
        have "removeCommon_loop a b (i + 1, j, newA @ [a ! i], newB) =
                ((newA @ [a ! i]) @ fst (diff_rest (drop (i + 1) a) (drop j b)),
                 newB @ snd (diff_rest (drop (i + 1) a) (drop j b)))"
          using True st by (intro "1.hyps") simp_all
        then show ?thesis using neq lt by (simp add: c st da) (simp add: db)
      next
        case ge: False
        then have st: "removeCommon_step a b (i, j, newA, newB) = (i, j + 1, newA, newB @ [b ! j])"
          using neq by (simp add: removeCommon_step_def)
        have "removeCommon_loop a b (i, j + 1, newA, newB @ [b ! j]) =
                (newA @ fst (diff_rest (drop i a) (drop (j + 1) b)),
                 (newB @ [b ! j]) @ snd (diff_rest (drop i a) (drop (j + 1) b)))"
          using True st by (intro "1.hyps") simp_all
        then show ?thesis using neq ge by (simp add: c st db) (simp add: da)
      qed
    qed
  next
    case False
    then have "drop i a = [] \<or> drop j b = []" by auto
    then have "diff_rest (drop i a) (drop j b) = (drop i a, drop j b)"
      by (cases "drop i a") auto
    moreover have "removeCommon_loop a b (i, j, newA, newB) = (newA @ drop i a, newB @ drop j b)"
      using False by (rule removeCommon_loop_leave)
    ultimately show ?thesis by simp
  qed
qed

lemma removeCommon_diff_rest: "removeCommon a b = diff_rest a b"
  by (simp add: removeCommon_def removeCommon_loop_diff_rest)

lemma unat_Size:
  assumes "valid_CIDR c"
  shows "unat (Size c) = (if PrefixLen c = 0 then 0 else 2 ^ (32 - PrefixLen c))"
proof -
  have "unat (Size c) = (2 ^ (32 - PrefixLen c)) mod 2 ^ 32"
  proof -
    have "(2 :: 32 word) ^ (32 - PrefixLen c) = of_nat (2 ^ (32 - PrefixLen c))"
      by simp
    then show ?thesis
      using assms by (simp add: Size_def valid_CIDR_def unat_of_nat del: of_nat_power)
  qed
  also have "\<dots> = (if PrefixLen c = 0 then 0 else 2 ^ (32 - PrefixLen c))"
  proof (cases "PrefixLen c = 0")
    case True
    then show ?thesis by simp
  next
    case False
    then have "(2::nat) ^ (32 - PrefixLen c) < 2 ^ 32"
      by (intro power_strict_increasing) simp_all
    then show ?thesis using False by simp
  qed
  finally show ?thesis .
qed




lemma Equal_refl: "Equal a a"
  by (simp add: Equal_def)







text \<open>
  Where no block reaches the end of the address space, \<open>End\<close> is the end as a number, and
  a set sorted by the one is sorted by the other.
\<close>

lemma unat_End:
  assumes "valid_CIDR c" and "End_number c < 2 ^ 32"
  shows "unat (End c) = End_number c"
proof -
  have "PrefixLen c \<noteq> 0"
  proof
    assume "PrefixLen c = 0"
    then have "End_number c \<ge> 2 ^ 32" by (simp add: End_number_def)
    with assms(2) show False by simp
  qed
  then have "unat (Size c) = 2 ^ (32 - PrefixLen c)"
    using assms(1) by (simp add: unat_Size)
  then show ?thesis
    using assms(2) by (simp add: End_def End_number_def unat_word_ariths)
qed

lemma sorted_by_end_range_set:
  assumes "sorted_by_end xs" and "\<And>c. c \<in> set xs \<Longrightarrow> End_number c < 2 ^ 32"
  shows "range_set xs"
proof -
  have v: "valid_CIDR x" if "x \<in> set xs" for x
    using assms(1) that by (simp add: sorted_by_end_def list_all_iff)
  have "sorted_wrt (\<lambda>a b. End_number a \<le> End_number b \<and> \<not> Overlaps a b) xs"
    using assms(1) by (simp add: sorted_by_end_def)
  then have "sorted_wrt (\<lambda>a b. End a \<le> End b \<and> \<not> Overlaps a b) xs"
  proof (rule sorted_wrt_mono_rel [rotated])
    fix a b
    assume a: "a \<in> set xs" and b: "b \<in> set xs"
      and le: "End_number a \<le> End_number b \<and> \<not> Overlaps a b"
    then show "End a \<le> End b \<and> \<not> Overlaps a b"
      using unat_End [OF v [OF a] assms(2) [OF a]] unat_End [OF v [OF b] assms(2) [OF b]]
      by (simp add: word_le_nat_alt)
  qed
  then show ?thesis
    using assms(1) by (simp add: range_set_def sorted_by_end_def)
qed


lemma diff_rest_first:
  "x \<in> set (fst (diff_rest (x # xs) ys)) \<or> list_ex (Equal x) ys"
proof (induction ys)
  case Nil
  show ?case by simp
next
  case (Cons y ys)
  then show ?case by auto
qed

lemmas ex_block_defs = ex_block0_def ex_block1_def ex_block2_def

lemma End_ex_blocks:
  "End ex_block0 = 0x0A000100" "End ex_block1 = 0x0A000200" "End ex_block2 = 0x0A000300"
  "End ex_half = 0x0A000100" "End ex_top = 0"
  by (simp_all add: End_def Size_def ex_block_defs ex_half_def ex_top_def)







section \<open>Properties of the calls\<close>

lemma run_ok_iff: "run ops before after None \<longleftrightarrow> after = before @ map (\<lambda>c. (c, None)) ops"
  by (simp add: run_def)

lemma run_failI:
  assumes "k < length ops"
    and "after = before @ map (\<lambda>c. (c, None)) (take k ops) @ [(ops ! k, Some m)]"
    and "err = failed_prefix (ops ! k) @ m"
  shows "run ops before after (Some err)"
  unfolding run_def option.case using assms by blast

lemma run_failE:
  assumes "run ops before after (Some err)"
  obtains k m where "k < length ops"
    and "after = before @ map (\<lambda>c. (c, None)) (take k ops) @ [(ops ! k, Some m)]"
    and "err = failed_prefix (ops ! k) @ m"
  using assms unfolding run_def option.case by blast

lemma run_Nil: "run [] b b None"
  by (simp add: run_ok_iff)

lemma run_Cons_fail: "run (c # ops) b (b @ [(c, Some m)]) (Some (failed_prefix c @ m))"
  by (rule run_failI [where k = 0 and m = m]) simp_all

lemma run_Cons_ok:
  assumes "run ops (b @ [(c, None)]) a r"
  shows "run (c # ops) b a r"
proof (cases r)
  case None
  with assms show ?thesis by (simp add: run_ok_iff)
next
  case (Some err)
  with assms obtain k m where "k < length ops"
    and "a = (b @ [(c, None)]) @ map (\<lambda>c. (c, None)) (take k ops) @ [(ops ! k, Some m)]"
    and "err = failed_prefix (ops ! k) @ m"
    by (auto elim: run_failE)
  then show ?thesis
    unfolding Some by (intro run_failI [where k = "Suc k" and m = m]) simp_all
qed

lemma run_append_fail:
  assumes "run ops1 b a (Some err)"
  shows "run (ops1 @ ops2) b a (Some err)"
proof -
  from assms obtain k m where "k < length ops1"
    and "a = b @ map (\<lambda>c. (c, None)) (take k ops1) @ [(ops1 ! k, Some m)]"
    and "err = failed_prefix (ops1 ! k) @ m"
    by (rule run_failE)
  then show ?thesis
    by (intro run_failI [where k = k and m = m]) (simp_all add: nth_append)
qed

lemma run_append_ok:
  assumes "run ops1 b mid None" and "run ops2 mid a r"
  shows "run (ops1 @ ops2) b a r"
  using assms(1)
proof (induction ops1 arbitrary: b)
  case Nil
  then have "mid = b" by (simp add: run_ok_iff)
  with assms(2) show ?case by simp
next
  case (Cons c ops1)
  then have "run ops1 (b @ [(c, None)]) mid None"
    by (simp add: run_ok_iff)
  then have "run (ops1 @ ops2) (b @ [(c, None)]) a r"
    by (rule Cons.IH)
  then show ?case
    by (simp add: run_Cons_ok)
qed

lemma with_world_frame:
  "(case x of (err, w) \<Rightarrow> (err, s\<lparr>world := w\<rparr>)) = (r, s') \<Longrightarrow>
     tracker s' = tracker s \<and> issued s' = issued s"
  by (cases x) auto

lemma createVPCRoute_frame:
  "createVPCRoute ext cidr s = (r, s') \<Longrightarrow> tracker s' = tracker s \<and> issued s' = issued s"
  unfolding createVPCRoute_def Let_def by (rule with_world_frame)

lemma deleteVPCRoute_frame:
  "deleteVPCRoute ext cidr s = (r, s') \<Longrightarrow> tracker s' = tracker s \<and> issued s' = issued s"
  unfolding deleteVPCRoute_def Let_def by (rule with_world_frame)

lemma createHostRoute_frame:
  assumes "createHostRoute ext cidr s = (r, s')"
  shows "tracker s' = tracker s \<and> issued s' = issued s"
proof (cases "parseCIDR (net_ParseCIDR ext) cidr")
  case (Inl err)
  with assms show ?thesis by (simp add: createHostRoute_def)
next
  case (Inr dst)
  with assms show ?thesis
    unfolding createHostRoute_def Let_def by (simp add: with_world_frame)
qed

lemma deleteHostRoute_frame:
  assumes "deleteHostRoute ext cidr s = (r, s')"
  shows "tracker s' = tracker s \<and> issued s' = issued s"
proof (cases "parseCIDR (net_ParseCIDR ext) cidr")
  case (Inl err)
  with assms show ?thesis by (simp add: deleteHostRoute_def)
next
  case (Inr dst)
  with assms show ?thesis
    unfolding deleteHostRoute_def Let_def by (simp add: with_world_frame)
qed

lemma logged_frame:
  assumes "\<And>r0 s0. m s = (r0, s0) \<Longrightarrow> tracker s0 = tracker s \<and> issued s0 = issued s"
    and "logged c m s = (r, s')"
  shows "tracker s' = tracker s \<and> issued s' = issued s @ [(c, r)]"
proof -
  obtain r0 s0 where m: "m s = (r0, s0)" by (cases "m s")
  have "r = fst (logged c m s)" and "s' = snd (logged c m s)"
    using assms(2) by simp_all
  then have "r = r0" and "s' = s0\<lparr>issued := issued s0 @ [(c, r0)]\<rparr>"
    by (simp_all add: logged_def m)
  with assms(1) [OF m] show ?thesis by simp
qed

lemma logged_createVPCRoute:
  assumes "logged c (createVPCRoute ext cidr) s = (r, s')"
  shows "tracker s' = tracker s \<and> issued s' = issued s @ [(c, r)]"
  using createVPCRoute_frame assms by (rule logged_frame [where m = "createVPCRoute ext cidr"])

lemma logged_createHostRoute:
  assumes "logged c (createHostRoute ext cidr) s = (r, s')"
  shows "tracker s' = tracker s \<and> issued s' = issued s @ [(c, r)]"
  using createHostRoute_frame assms by (rule logged_frame [where m = "createHostRoute ext cidr"])

lemma logged_deleteVPCRoute:
  assumes "logged c (deleteVPCRoute ext cidr) s = (r, s')"
  shows "tracker s' = tracker s \<and> issued s' = issued s @ [(c, r)]"
  using deleteVPCRoute_frame assms by (rule logged_frame [where m = "deleteVPCRoute ext cidr"])

lemma logged_deleteHostRoute:
  assumes "logged c (deleteHostRoute ext cidr) s = (r, s')"
  shows "tracker s' = tracker s \<and> issued s' = issued s @ [(c, r)]"
  using deleteHostRoute_frame assms by (rule logged_frame [where m = "deleteHostRoute ext cidr"])

text \<open>
  What a loop and the whole of \<open>HandleUpdate\<close> add to \<open>issued\<close>, and that they leave the
  tracker as it is.
\<close>

lemma add_entries_run:
  "add_entries ext cs s = (r, s') \<Longrightarrow>
     tracker s' = tracker s \<and> run (add_ops cs) (issued s) (issued s') r"
proof (induction cs arbitrary: s)
  case Nil
  then show ?case by (simp add: add_ops_def run_Nil)
next
  case (Cons c cs)
  let ?str = "CIDR_String c"
  obtain r1 s1 where c1: "logged (AddCloudRoute ?str) (createVPCRoute ext ?str) s = (r1, s1)"
    by (cases "logged (AddCloudRoute ?str) (createVPCRoute ext ?str) s")
  then have f1: "tracker s1 = tracker s" "issued s1 = issued s @ [(AddCloudRoute ?str, r1)]"
    using logged_createVPCRoute [OF c1] by simp_all
  have ops: "add_ops (c # cs) = AddCloudRoute ?str # AddHostRoute ?str # add_ops cs"
    by (simp add: add_ops_def)
  show ?case
  proof (cases r1)
    case (Some m)
    with Cons.prems c1 have "r = Some (''createVPCRoutes failed: '' @ m)" "s' = s1"
      by (simp_all add: Let_def)
    then show ?thesis
      using f1 Some run_Cons_fail [of "AddCloudRoute ?str" _ "issued s" m] by (simp add: ops)
  next
    case None
    obtain r2 s2 where c2: "logged (AddHostRoute ?str) (createHostRoute ext ?str) s1 = (r2, s2)"
      by (cases "logged (AddHostRoute ?str) (createHostRoute ext ?str) s1")
    then have f2: "tracker s2 = tracker s1" "issued s2 = issued s1 @ [(AddHostRoute ?str, r2)]"
      using logged_createHostRoute [OF c2] by simp_all
    show ?thesis
    proof (cases r2)
      case (Some m)
      with Cons.prems c1 c2 None have "r = Some (''createHostRoute failed: '' @ m)" "s' = s2"
        by (simp_all add: Let_def)
      then show ?thesis
        using f1 f2 None Some run_Cons_fail [of "AddHostRoute ?str" _ "issued s1" m]
        by (simp add: ops run_Cons_ok)
    next
      case r2: None
      with Cons.prems c1 c2 None have "add_entries ext cs s2 = (r, s')"
        by (simp add: Let_def)
      then have "tracker s' = tracker s2" "run (add_ops cs) (issued s2) (issued s') r"
        using Cons.IH [of s2] by simp_all
      then show ?thesis
        using f1 f2 None r2 by (simp add: ops run_Cons_ok)
    qed
  qed
qed

lemma remove_entries_run:
  "remove_entries ext cs s = (r, s') \<Longrightarrow>
     tracker s' = tracker s \<and> run (remove_ops cs) (issued s) (issued s') r"
proof (induction cs arbitrary: s)
  case Nil
  then show ?case by (simp add: remove_ops_def run_Nil)
next
  case (Cons c cs)
  let ?str = "CIDR_String c"
  obtain r1 s1 where c1: "logged (RemoveCloudRoute ?str) (deleteVPCRoute ext ?str) s = (r1, s1)"
    by (cases "logged (RemoveCloudRoute ?str) (deleteVPCRoute ext ?str) s")
  then have f1: "tracker s1 = tracker s" "issued s1 = issued s @ [(RemoveCloudRoute ?str, r1)]"
    using logged_deleteVPCRoute [OF c1] by simp_all
  have ops: "remove_ops (c # cs) = RemoveCloudRoute ?str # RemoveHostRoute ?str # remove_ops cs"
    by (simp add: remove_ops_def)
  show ?case
  proof (cases r1)
    case (Some m)
    with Cons.prems c1 have "r = Some (''deleteVPCRoute failed: '' @ m)" "s' = s1"
      by (simp_all add: Let_def)
    then show ?thesis
      using f1 Some run_Cons_fail [of "RemoveCloudRoute ?str" _ "issued s" m] by (simp add: ops)
  next
    case None
    obtain r2 s2 where c2: "logged (RemoveHostRoute ?str) (deleteHostRoute ext ?str) s1 = (r2, s2)"
      by (cases "logged (RemoveHostRoute ?str) (deleteHostRoute ext ?str) s1")
    then have f2: "tracker s2 = tracker s1" "issued s2 = issued s1 @ [(RemoveHostRoute ?str, r2)]"
      using logged_deleteHostRoute [OF c2] by simp_all
    show ?thesis
    proof (cases r2)
      case (Some m)
      with Cons.prems c1 c2 None have "r = Some (''deleteHostRoute failed: '' @ m)" "s' = s2"
        by (simp_all add: Let_def)
      then show ?thesis
        using f1 f2 None Some run_Cons_fail [of "RemoveHostRoute ?str" _ "issued s1" m]
        by (simp add: ops run_Cons_ok)
    next
      case r2: None
      with Cons.prems c1 c2 None have "remove_entries ext cs s2 = (r, s')"
        by (simp add: Let_def)
      then have "tracker s' = tracker s2" "run (remove_ops cs) (issued s2) (issued s') r"
        using Cons.IH [of s2] by simp_all
      then show ?thesis
        using f1 f2 None r2 by (simp add: ops run_Cons_ok)
    qed
  qed
qed

lemma HandleUpdate_run:
  assumes "HandleUpdate ext NewCIDRs prevRanges currRanges s = (r, s')"
  shows "tracker s' = tracker s
       \<and> run (canonical_ops (NewCIDRs prevRanges) (NewCIDRs currRanges)) (issued s) (issued s') r"
proof -
  let ?onlyPrev = "fst (removeCommon (NewCIDRs prevRanges) (NewCIDRs currRanges))"
  let ?onlyCurr = "snd (removeCommon (NewCIDRs prevRanges) (NewCIDRs currRanges))"
  obtain r1 s1 where a: "add_entries ext ?onlyCurr s = (r1, s1)"
    by (cases "add_entries ext ?onlyCurr s")
  then have a_run: "tracker s1 = tracker s" "run (add_ops ?onlyCurr) (issued s) (issued s1) r1"
    using add_entries_run [OF a] by simp_all
  show ?thesis
  proof (cases r1)
    case (Some err)
    with assms a have "r = Some err" "s' = s1"
      by (simp_all add: HandleUpdate_def case_prod_unfold)
    with a_run Some show ?thesis
      by (simp add: canonical_ops_def run_append_fail)
  next
    case None
    with assms a have d: "remove_entries ext ?onlyPrev s1 = (r, s')"
      by (simp add: HandleUpdate_def case_prod_unfold)
    have "tracker s' = tracker s1" "run (remove_ops ?onlyPrev) (issued s1) (issued s') r"
      using remove_entries_run [OF d] by simp_all
    with a_run None show ?thesis
      by (simp add: canonical_ops_def run_append_ok)
  qed
qed

lemma diff_rest_Equal: "list_all2 Equal xs ys \<Longrightarrow> diff_rest xs ys = ([], [])"
  by (induction xs ys rule: list_all2_induct) simp_all

section \<open>Parsing the string of a block\<close>

lemma of_char_digit: "d < 10 \<Longrightarrow> (of_char (digit d) :: nat) = 48 + d"
  by (simp add: digit_def)

lemma isDigit_digit: "d < 10 \<Longrightarrow> isDigit (digit d)"
  by (simp add: isDigit_def of_char_digit)

lemma not_isDigit_dot: "\<not> isDigit CHR ''.''"
  by (simp add: isDigit_def)

lemma not_isDigit_slash: "\<not> isDigit CHR ''/''"
  by (simp add: isDigit_def)

lemma uitoa_loop_append: "uitoa_loop val buf @ rest = uitoa_loop val (buf @ rest)"
proof (induction val buf rule: uitoa_loop.induct)
  case (1 val buf)
  show ?case
  proof (cases "val \<ge> 10")
    case True
    then show ?thesis
      using "1.IH" by (subst (1 2) uitoa_loop.simps) simp
  next
    case False
    then show ?thesis
      by (subst (1 2) uitoa_loop.simps) simp
  qed
qed

lemma uitoa_append: "uitoa val @ rest = (if val = 0 then CHR ''0'' # rest else uitoa_loop val rest)"
  by (simp add: uitoa_def uitoa_loop_append)

lemma uitoa_loop_digits:
  "list_all isDigit (uitoa_loop val buf) \<longleftrightarrow> list_all isDigit buf"
proof (induction val buf rule: uitoa_loop.induct)
  case (1 val buf)
  show ?case
  proof (cases "val \<ge> 10")
    case True
    then show ?thesis
      using "1.IH" by (subst uitoa_loop.simps) (simp add: isDigit_digit)
  next
    case False
    then show ?thesis
      by (subst uitoa_loop.simps) (simp add: isDigit_digit)
  qed
qed

lemma uitoa_digits: "list_all isDigit (uitoa val)"
  by (simp add: uitoa_def uitoa_loop_digits isDigit_def)

lemma uitoa_loop_not_Nil: "uitoa_loop val buf \<noteq> []"
  by (subst uitoa_loop.simps, induction val buf rule: uitoa_loop.induct) (simp add: uitoa_loop.simps)

lemma uitoa_not_Nil: "uitoa val \<noteq> []"
  by (simp add: uitoa_def uitoa_loop_not_Nil)

lemma dtoi_loop_digit:
  assumes "d < 10" and "n * 10 + d < big"
  shows "dtoi_loop n (digit d # cs) = dtoi_loop (n * 10 + d) cs"
  using assms by (simp add: isDigit_digit of_char_digit)

lemma dtoi_loop_uitoa_loop:
  "val < big \<Longrightarrow> dtoi_loop 0 (uitoa_loop val buf) = dtoi_loop val buf"
proof (induction val buf rule: uitoa_loop.induct)
  case (1 val buf)
  show ?case
  proof (cases "val \<ge> 10")
    case True
    have "val div 10 < big" using "1.prems" by simp
    then have "dtoi_loop 0 (uitoa_loop (val div 10) (digit (val mod 10) # buf)) =
                 dtoi_loop (val div 10) (digit (val mod 10) # buf)"
      using "1.IH" True by simp
    also have "\<dots> = dtoi_loop (val div 10 * 10 + val mod 10) buf"
      using "1.prems" by (intro dtoi_loop_digit) simp_all
    finally show ?thesis
      using True by (subst uitoa_loop.simps) simp
  next
    case False
    then have "dtoi_loop 0 (digit val # buf) = dtoi_loop (0 * 10 + val) buf"
      using "1.prems" by (intro dtoi_loop_digit) simp_all
    then show ?thesis
      using False by (subst uitoa_loop.simps) simp
  qed
qed

lemma dtoi_loop_stop: "rest = [] \<or> \<not> isDigit (hd rest) \<Longrightarrow> dtoi_loop n rest = (n, rest, True)"
  by (cases rest) auto

lemma dtoi_uitoa:
  assumes "val < big" and "rest = [] \<or> \<not> isDigit (hd rest)"
  shows "dtoi (uitoa val @ rest) = (val, rest, True)"
proof -
  have "dtoi_loop 0 (uitoa val @ rest) = dtoi_loop val rest"
  proof (cases "val = 0")
    case True
    then show ?thesis
      by (simp add: uitoa_append isDigit_def big_def)
  next
    case False
    then show ?thesis
      using assms(1) by (simp add: uitoa_append dtoi_loop_uitoa_loop)
  qed
  then have "dtoi_loop 0 (uitoa val @ rest) = (val, rest, True)"
    using assms(2) by (simp add: dtoi_loop_stop)
  then show ?thesis
    by (simp add: dtoi_def uitoa_not_Nil)
qed

lemma stops_simps: "stops []" "stops (CHR ''.'' # s)" "stops (CHR ''/'' # s)"
  by (simp_all add: stops_def not_isDigit_dot not_isDigit_slash)

lemma dtoi_octet:
  assumes "n \<le> 255" and "stops rest"
  shows "dtoi (uitoa n @ rest) = (n, rest, True)"
  using assms by (intro dtoi_uitoa) (simp_all add: big_def stops_def)

lemma parseIPv4_loop_first:
  assumes "n \<le> 255" and "stops rest"
  shows "parseIPv4_loop 0 (uitoa n @ rest) p = parseIPv4_loop (Suc 0) rest (p[0 := of_nat n])"
  using assms
  by (subst parseIPv4_loop.simps) (simp add: IPv4len_def uitoa_not_Nil dtoi_octet)

lemma parseIPv4_loop_next:
  assumes "n \<le> 255" and "stops rest" and "j < 3"
  shows "parseIPv4_loop (Suc j) (CHR ''.'' # uitoa n @ rest) p =
           parseIPv4_loop (Suc (Suc j)) rest (p[Suc j := of_nat n])"
  using assms
  by (subst parseIPv4_loop.simps) (simp add: IPv4len_def dtoi_octet)

lemma parseIPv4_loop_end:
  "parseIPv4_loop (Suc (Suc (Suc (Suc 0)))) [] [a, b, c, d] = IPv4 a b c d"
  by (subst parseIPv4_loop.simps) (simp add: IPv4len_def)

lemma parseIPv4_dotted:
  assumes "a \<le> 255" and "b \<le> 255" and "c \<le> 255" and "d \<le> 255"
  shows "parseIPv4 (uitoa a @ ''.'' @ uitoa b @ ''.'' @ uitoa c @ ''.'' @ uitoa d) =
           IPv4 (of_nat a) (of_nat b) (of_nat c) (of_nat d)"
proof -
  let ?p0 = "[0, 0, 0, 0 :: byte]"
  let ?s3 = "CHR ''.'' # uitoa d @ []"
  let ?s2 = "CHR ''.'' # uitoa c @ ?s3"
  let ?s1 = "CHR ''.'' # uitoa b @ ?s2"
  have "parseIPv4_loop 0 (uitoa a @ ?s1) ?p0 = parseIPv4_loop (Suc 0) ?s1 (?p0[0 := of_nat a])"
    using assms(1) by (rule parseIPv4_loop_first) (rule stops_simps)
  also have "\<dots> = parseIPv4_loop (Suc (Suc 0)) ?s2 (?p0[0 := of_nat a, Suc 0 := of_nat b])"
    using assms(2) by (rule parseIPv4_loop_next) (simp_all add: stops_simps)
  also have "\<dots> = parseIPv4_loop (Suc (Suc (Suc 0))) ?s3
                      (?p0[0 := of_nat a, Suc 0 := of_nat b, Suc (Suc 0) := of_nat c])"
    using assms(3) by (rule parseIPv4_loop_next) (simp_all add: stops_simps)
  also have "\<dots> = parseIPv4_loop (Suc (Suc (Suc (Suc 0)))) []
                      (?p0[0 := of_nat a, Suc 0 := of_nat b, Suc (Suc 0) := of_nat c,
                           Suc (Suc (Suc 0)) := of_nat d])"
    using assms(4) by (rule parseIPv4_loop_next) (simp_all add: stops_simps)
  also have "\<dots> = IPv4 (of_nat a) (of_nat b) (of_nat c) (of_nat d)"
    by (simp add: parseIPv4_loop_end)
  finally have "parseIPv4_loop 0 (uitoa a @ ?s1) ?p0 = IPv4 (of_nat a) (of_nat b) (of_nat c) (of_nat d)" .
  moreover have "replicate IPv4len (0 :: byte) = ?p0"
    by (simp add: IPv4len_def numeral_eq_Suc)
  ultimately show ?thesis
    by (simp add: parseIPv4_def)
qed

lemma byteIndex_first: "c \<notin> set xs \<Longrightarrow> byteIndex (xs @ c # ys) c = Some (length xs)"
  by (induction xs) auto

lemma octet_le: "octet a k \<le> 255"
proof -
  have "octet a k < 256" by (simp add: octet_def)
  then show ?thesis by simp
qed

lemma slash_notin_uitoa: "CHR ''/'' \<notin> set (uitoa n)"
  using uitoa_digits [of n] not_isDigit_slash by (auto simp: list_all_iff)

lemma slash_notin_dotted: "CHR ''/'' \<notin> set (dotted a b c d)"
  by (simp add: dotted_def slash_notin_uitoa)

lemma CIDR_String_dotted:
  "CIDR_String c =
     dotted (octet (Addr c) 3) (octet (Addr c) 2) (octet (Addr c) 1) (octet (Addr c) 0) @
     CHR ''/'' # uitoa (PrefixLen c)"
  by (simp add: CIDR_String_def dotted_def)

lemma IPv4_not_Nil: "IPv4 a b c d \<noteq> []"
  by (simp add: IPv4_def)

lemma ParseCIDR_dotted:
  assumes "a \<le> 255" and "b \<le> 255" and "c \<le> 255" and "d \<le> 255" and "n \<le> 32"
  shows "ParseCIDR other (dotted a b c d @ CHR ''/'' # uitoa n) =
           Inr (IPv4 (of_nat a) (of_nat b) (of_nat c) (of_nat d),
                \<lparr>IP = IP_Mask (IPv4 (of_nat a) (of_nat b) (of_nat c) (of_nat d)) (CIDRMask n 32),
                 Mask = CIDRMask n 32\<rparr>)"
proof -
  have i: "byteIndex (dotted a b c d @ CHR ''/'' # uitoa n) CHR ''/'' = Some (length (dotted a b c d))"
    by (rule byteIndex_first) (rule slash_notin_dotted)
  have p: "parseIPv4 (dotted a b c d) = IPv4 (of_nat a) (of_nat b) (of_nat c) (of_nat d)"
    unfolding dotted_def using assms(1-4) by (rule parseIPv4_dotted)
  have "dtoi (uitoa n @ []) = (n, [], True)"
    using assms(5) by (intro dtoi_uitoa) (simp_all add: big_def)
  then have d: "dtoi (uitoa n) = (n, [], True)"
    by simp
  show ?thesis
    using assms(5) by (simp add: ParseCIDR_def i p d IPv4_not_Nil IPv4len_def Let_def)
qed

lemma length_CIDRMask_loop: "length (CIDRMask_loop l n) = l"
  by (induction l arbitrary: n) simp_all

lemma length_CIDRMask: "n \<le> 32 \<Longrightarrow> length (CIDRMask n 32) = 4"
  by (simp add: CIDRMask_def IPv4len_def length_CIDRMask_loop)

lemma simpleMaskLength_upto: "list_all (\<lambda>n. simpleMaskLength (CIDRMask n 32) = Some n) [0..<33]"
  by code_simp

lemma simpleMaskLength_CIDRMask: "n \<le> 32 \<Longrightarrow> simpleMaskLength (CIDRMask n 32) = Some n"
  using simpleMaskLength_upto by (simp add: list_all_iff)

lemma To4_IPv4: "To4 (IPv4 a b c d) = [a, b, c, d]"
  by (simp add: To4_def IPv4_def v4InV6Prefix_def IPv4len_def IPv6len_def)

lemma IP_String_4: "IP_String other [a, b, c, d] = dotted (unat a) (unat b) (unat c) (unat d)"
  by (simp add: IP_String_def To4_def IPv4len_def dotted_def)

lemma IPNet_String_IPv4:
  assumes "n \<le> 32"
  shows "IPNet_String other \<lparr>IP = IPv4 a b c d, Mask = CIDRMask n 32\<rparr> =
           dotted (unat a) (unat b) (unat c) (unat d) @ CHR ''/'' # uitoa n"
proof -
  have "networkNumberAndMask \<lparr>IP = IPv4 a b c d, Mask = CIDRMask n 32\<rparr> =
          Some ([a, b, c, d], CIDRMask n 32)"
    using assms by (simp add: networkNumberAndMask_def To4_IPv4 length_CIDRMask IPv4len_def)
  then show ?thesis
    using assms by (simp add: IPNet_String_def simpleMaskLength_CIDRMask IP_String_4)
qed

lemma unat_of_nat_octet: "unat (of_nat (octet a k) :: byte) = octet a k"
  by (simp add: unat_of_nat octet_def)



lemma parseCIDR_valid:
  assumes "valid_CIDR c"
  shows "parseCIDR (ParseCIDR other) (CIDR_String c) = Inr (parsed c)"
proof -
  let ?ip = "IPv4 (of_nat (octet (Addr c) 3)) (of_nat (octet (Addr c) 2))
                 (of_nat (octet (Addr c) 1)) (of_nat (octet (Addr c) 0))"
  let ?m = "CIDRMask (PrefixLen c) 32"
  have len: "PrefixLen c \<le> 32"
    using assms by (simp add: valid_CIDR_def)
  have "ParseCIDR other (CIDR_String c) = Inr (?ip, \<lparr>IP = IP_Mask ?ip ?m, Mask = ?m\<rparr>)"
    unfolding CIDR_String_dotted using octet_le octet_le octet_le octet_le len
    by (rule ParseCIDR_dotted)
  then show ?thesis
    unfolding parsed_def by (simp add: parseCIDR_def)
qed

lemma IPNet_String_parsed:
  assumes "valid_CIDR c"
  shows "IPNet_String other (parsed c) = CIDR_String c"
  using assms unfolding parsed_def
  by (simp add: valid_CIDR_def IPNet_String_IPv4 unat_of_nat_octet CIDR_String_dotted)


section \<open>The calls on route tables that are sets\<close>











text \<open>
  The four texts put before a message differ, so an error of \<open>HandleUpdate\<close> gives the text
  and the message it was made of.
\<close>

lemma failed_prefix_inj:
  assumes "failed_prefix op @ m = failed_prefix op' @ m'"
  shows "failed_prefix op = failed_prefix op' \<and> m = m'"
  using assms by (cases op; cases op') simp_all

section \<open>The examples\<close>

lemma CIDR_String_ex_block0: "CIDR_String ex_block0 = ''10.0.0.0/24''"
  by (simp add: ex_block0_def CIDR_String_def octet_def uitoa_def uitoa_loop.simps digit_def
      char_of_eq_iff)

lemma CIDR_String_ex_block1: "CIDR_String ex_block1 = ''10.0.1.0/24''"
  by (simp add: ex_block1_def CIDR_String_def octet_def uitoa_def uitoa_loop.simps digit_def
      char_of_eq_iff)



lemma valid_ex_blocks: "valid_CIDR ex_block0" "valid_CIDR ex_block1" "valid_CIDR ex_block2"
  by (simp_all add: valid_CIDR_def ex_block_defs)




lemma parseCIDR_ex_block0:
  "parseCIDR (ParseCIDR other) ''10.0.0.0/24'' = Inr (parsed ex_block0)"
  using parseCIDR_valid [OF valid_ex_blocks(1), of other] by (simp add: CIDR_String_ex_block0)

lemma parseCIDR_ex_block1:
  "parseCIDR (ParseCIDR other) ''10.0.1.0/24'' = Inr (parsed ex_block1)"
  using parseCIDR_valid [OF valid_ex_blocks(2), of other] by (simp add: CIDR_String_ex_block1)

lemma IPNet_String_ex_block0: "IPNet_String other (parsed ex_block0) = ''10.0.0.0/24''"
  using IPNet_String_parsed [OF valid_ex_blocks(1), of other] by (simp add: CIDR_String_ex_block0)

lemma IPNet_String_ex_block1: "IPNet_String other (parsed ex_block1) = ''10.0.1.0/24''"
  using IPNet_String_parsed [OF valid_ex_blocks(2), of other] by (simp add: CIDR_String_ex_block1)

lemmas ex_eval = HandleUpdate_def logged_def Let_def
  createVPCRoute_def createHostRoute_def deleteVPCRoute_def deleteHostRoute_def
  table_externals_def table_call_def ex_state_def
  CIDR_String_ex_block0 CIDR_String_ex_block1 parseCIDR_ex_block0 parseCIDR_ex_block1
  IPNet_String_ex_block0 IPNet_String_ex_block1

text \<open>
  Runs of \<open>HandleUpdate\<close> on the tables that are sets, with the results of the calls given.
\<close>

lemma removeCommon_only_prev: "removeCommon [ex_block0] [] = ([ex_block0], [])"
  by (simp add: removeCommon_diff_rest)

lemma removeCommon_only_curr: "removeCommon [] [c] = ([], [c])"
  by (simp add: removeCommon_diff_rest)

lemma HandleUpdate_last_fails:
  "HandleUpdate (table_externals ex_other) id [ex_block0] []
     (ex_state {''10.0.0.0/24''} [None, Some ''boom'']) =
   (Some ''deleteHostRoute failed: boom'',
    \<lparr>tracker = \<lparr>ec2 = (), instanceID = ''i-1'', routeTableID = ''rtb-1'', linkIndex = 7\<rparr>,
      world = \<lparr>cloud = {}, host = {''10.0.0.0/24''}, script = []\<rparr>,
      issued = [(RemoveCloudRoute ''10.0.0.0/24'', None),
                (RemoveHostRoute ''10.0.0.0/24'', Some ''boom'')]\<rparr>)"
  by (simp add: ex_eval removeCommon_only_prev)

lemma canonical_ops_last:
  "canonical_ops [ex_block0] [] =
     [RemoveCloudRoute ''10.0.0.0/24'', RemoveHostRoute ''10.0.0.0/24'']"
  by (simp add: canonical_ops_def removeCommon_only_prev add_ops_def remove_ops_def
      CIDR_String_ex_block0)

lemma HandleUpdate_add_host_fails:
  "HandleUpdate (table_externals ex_other) id [] [ex_block1]
     (ex_state {} [None, Some ''boom'']) =
   (Some ''createHostRoute failed: boom'',
    \<lparr>tracker = \<lparr>ec2 = (), instanceID = ''i-1'', routeTableID = ''rtb-1'', linkIndex = 7\<rparr>,
      world = \<lparr>cloud = {''10.0.1.0/24''}, host = {}, script = []\<rparr>,
      issued = [(AddCloudRoute ''10.0.1.0/24'', None),
                (AddHostRoute ''10.0.1.0/24'', Some ''boom'')]\<rparr>)"
  by (simp add: ex_eval removeCommon_only_curr)

lemma HandleUpdate_add_cloud_fails0:
  "HandleUpdate (table_externals ex_other) id [] [ex_block0]
     (ex_state {} [Some ''boom'']) =
   (Some ''createVPCRoutes failed: boom'',
    \<lparr>tracker = \<lparr>ec2 = (), instanceID = ''i-1'', routeTableID = ''rtb-1'', linkIndex = 7\<rparr>,
      world = \<lparr>cloud = {}, host = {}, script = []\<rparr>,
      issued = [(AddCloudRoute ''10.0.0.0/24'', Some ''boom'')]\<rparr>)"
  by (simp add: ex_eval removeCommon_only_curr)

lemma HandleUpdate_add_cloud_fails1:
  "HandleUpdate (table_externals ex_other) id [] [ex_block1]
     (ex_state {} [Some ''boom'']) =
   (Some ''createVPCRoutes failed: boom'',
    \<lparr>tracker = \<lparr>ec2 = (), instanceID = ''i-1'', routeTableID = ''rtb-1'', linkIndex = 7\<rparr>,
      world = \<lparr>cloud = {}, host = {}, script = []\<rparr>,
      issued = [(AddCloudRoute ''10.0.1.0/24'', Some ''boom'')]\<rparr>)"
  by (simp add: ex_eval removeCommon_only_curr)




section \<open>The claims\<close>







text \<open>
  C3, as stated: the operations issued by \<open>HandleUpdate\<close> are a prefix of the canonical
  sequence, and the full sequence is issued exactly when \<open>HandleUpdate\<close> returns success.
  The second part fails when the last operation of the sequence is the one that fails:
  with prev = [10.0.0.0/24], curr = [] and a host table that refuses the removal, both
  operations of the canonical sequence are issued and \<open>HandleUpdate\<close> returns an error.
\<close>

theorem HandleUpdate_full_sequence_counterexample:
  "map fst (issued (snd (HandleUpdate (table_externals ex_other) id [ex_block0] []
       (ex_state {''10.0.0.0/24''} [None, Some ''boom'']))))
     = canonical_ops [ex_block0] []
   \<and> fst (HandleUpdate (table_externals ex_other) id [ex_block0] []
       (ex_state {''10.0.0.0/24''} [None, Some ''boom''])) \<noteq> None"
  by (simp add: HandleUpdate_last_fails canonical_ops_last)

text \<open>
  C3, amended. The operations issued by \<open>HandleUpdate\<close> are a prefix of the canonical
  sequence: for each range of \<open>onlyCurr\<close> in order the add to the cloud table, then the
  add to the host table; then for each range of \<open>onlyPrev\<close> in order the remove from the
  cloud table, then the remove from the host table. Every operation before the last one
  issued succeeded. \<open>HandleUpdate\<close> returns success exactly when the full sequence was
  issued and every operation of it succeeded. When it returns an error, the last operation
  issued is the one that failed, so it returned immediately after it; and when that is
  the \<open>k\<close>-th operation of the add phase, the operations issued are the first \<open>k\<close> of the
  add phase, with no operation of the remove phase among them.
\<close>

theorem HandleUpdate_issues_prefix:
  assumes "HandleUpdate ext NewCIDRs prevRanges currRanges s = (r, s')"
  shows "\<exists>new. issued s' = issued s @ new
       \<and> length new \<le> length (canonical_ops (NewCIDRs prevRanges) (NewCIDRs currRanges))
       \<and> map fst new =
           take (length new) (canonical_ops (NewCIDRs prevRanges) (NewCIDRs currRanges))
       \<and> list_all (\<lambda>x. snd x = None) (butlast new)
       \<and> (r = None \<longleftrightarrow>
             map fst new = canonical_ops (NewCIDRs prevRanges) (NewCIDRs currRanges)
             \<and> list_all (\<lambda>x. snd x = None) new)
       \<and> (r \<noteq> None \<longrightarrow> new \<noteq> [] \<and> snd (last new) \<noteq> None)
       \<and> (length new
              \<le> length (add_ops (snd (removeCommon (NewCIDRs prevRanges) (NewCIDRs currRanges))))
            \<longrightarrow> map fst new = take (length new)
                  (add_ops (snd (removeCommon (NewCIDRs prevRanges) (NewCIDRs currRanges)))))"
proof -
  let ?canon = "canonical_ops (NewCIDRs prevRanges) (NewCIDRs currRanges)"
  let ?adds = "add_ops (snd (removeCommon (NewCIDRs prevRanges) (NewCIDRs currRanges)))"
  have run: "run ?canon (issued s) (issued s') r"
    using HandleUpdate_run [OF assms] by simp
  have adds: "take n ?canon = take n ?adds" if "n \<le> length ?adds" for n
    using that by (simp add: canonical_ops_def)
  show ?thesis
  proof (cases r)
    case None
    let ?new = "map (\<lambda>c. (c, None :: error option)) ?canon"
    have "issued s' = issued s @ ?new"
      using run None by (simp add: run_ok_iff)
    moreover have "map fst ?new = ?canon"
      by (simp add: comp_def)
    moreover have "list_all (\<lambda>x. snd x = None) ?new"
      by (simp add: list_all_iff)
    moreover have "list_all (\<lambda>x. snd x = None) (butlast ?new)"
      by (auto simp: list_all_iff dest: in_set_butlastD)
    moreover have "length ?new \<le> length ?adds \<longrightarrow> map fst ?new = take (length ?new) ?adds"
      using adds [of "length ?canon"] by (simp add: comp_def)
    ultimately show ?thesis
      using None by (intro exI [of _ ?new]) simp
  next
    case (Some err)
    with run obtain k m where k: "k < length ?canon"
      and new: "issued s' = issued s @ map (\<lambda>c. (c, None)) (take k ?canon) @ [(?canon ! k, Some m)]"
      by (auto elim: run_failE)
    let ?new = "map (\<lambda>c. (c, None :: error option)) (take k ?canon) @ [(?canon ! k, Some m)]"
    have len: "length ?new = Suc k"
      using k by simp
    have "map fst ?new = take k ?canon @ [?canon ! k]"
      by (simp add: comp_def)
    then have pre: "map fst ?new = take (length ?new) ?canon"
      using k by (simp only: len take_Suc_conv_app_nth)
    have "list_all (\<lambda>x. snd x = None) (butlast ?new)"
      by (simp add: list_all_iff)
    moreover have "length ?new \<le> length ?canon"
      using k by simp
    moreover have "length ?new \<le> length ?adds \<longrightarrow> map fst ?new = take (length ?new) ?adds"
      using pre adds by simp
    moreover have "\<not> list_all (\<lambda>x. snd x = None) ?new"
      by simp
    ultimately show ?thesis
      using Some new pre by (intro exI [of _ ?new]) simp
  qed
qed

theorem HandleUpdate_issues_prefix_witness:
  "HandleUpdate (table_externals ex_other) id [] [ex_block1] (ex_state {} [None, Some ''boom''])
     = (Some ''createHostRoute failed: boom'',
        snd (HandleUpdate (table_externals ex_other) id [] [ex_block1]
          (ex_state {} [None, Some ''boom''])))
   \<and> (\<exists>new. issued (snd (HandleUpdate (table_externals ex_other) id [] [ex_block1]
                 (ex_state {} [None, Some ''boom'']))) = new
        \<and> map fst new = take (length new) (canonical_ops [] [ex_block1])
        \<and> new \<noteq> [] \<and> snd (last new) \<noteq> None
        \<and> list_all (\<lambda>x. snd x = None) (butlast new))"
proof -
  have h: "HandleUpdate (table_externals ex_other) id [] [ex_block1]
      (ex_state {} [None, Some ''boom''])
     = (Some ''createHostRoute failed: boom'',
        snd (HandleUpdate (table_externals ex_other) id [] [ex_block1]
          (ex_state {} [None, Some ''boom''])))"
    by (simp add: HandleUpdate_add_host_fails)
  show ?thesis
    using h HandleUpdate_issues_prefix [OF h] by (auto simp: ex_state_def)
qed

text \<open>
  C4, as stated: the error that \<open>HandleUpdate\<close> returns identifies the range on which the
  operation failed. It does not: when the cloud table refuses the first add with the same
  message, \<open>HandleUpdate\<close> returns the same error for 10.0.0.0/24 and for 10.0.1.0/24.
\<close>

theorem HandleUpdate_error_range_counterexample:
  "fst (HandleUpdate (table_externals ex_other) id [] [ex_block0] (ex_state {} [Some ''boom'']))
     = fst (HandleUpdate (table_externals ex_other) id [] [ex_block1] (ex_state {} [Some ''boom'']))
   \<and> issued (snd (HandleUpdate (table_externals ex_other) id [] [ex_block0]
         (ex_state {} [Some ''boom''])))
       = [(AddCloudRoute ''10.0.0.0/24'', Some ''boom'')]
   \<and> issued (snd (HandleUpdate (table_externals ex_other) id [] [ex_block1]
         (ex_state {} [Some ''boom''])))
       = [(AddCloudRoute ''10.0.1.0/24'', Some ''boom'')]
   \<and> ''10.0.0.0/24'' \<noteq> ''10.0.1.0/24''"
  by (simp add: HandleUpdate_add_cloud_fails0 HandleUpdate_add_cloud_fails1)

text \<open>
  C4, amended. When an operation fails, \<open>HandleUpdate\<close> returns an error made of the text
  for the method that failed (\<open>createVPCRoutes\<close>, \<open>createHostRoute\<close>, \<open>deleteVPCRoute\<close> or
  \<open>deleteHostRoute\<close>, each followed by \<open>failed:\<close>) and the message of the error that the
  operation returned; the error gives back that text and that message, and nothing of the
  range.
\<close>

theorem HandleUpdate_error_names_operation:
  assumes "HandleUpdate ext NewCIDRs prevRanges currRanges s = (Some err, s')"
  shows "\<exists>before op m. issued s' = issued s @ before @ [(op, Some m)]
       \<and> err = failed_prefix op @ m
       \<and> (\<forall>op' m'. err = failed_prefix op' @ m' \<longrightarrow>
             failed_prefix op' = failed_prefix op \<and> m' = m)"
proof -
  let ?canon = "canonical_ops (NewCIDRs prevRanges) (NewCIDRs currRanges)"
  have "run ?canon (issued s) (issued s') (Some err)"
    using HandleUpdate_run [OF assms] by simp
  then obtain k m where
    "issued s' = issued s @ map (\<lambda>c. (c, None)) (take k ?canon) @ [(?canon ! k, Some m)]"
    and err: "err = failed_prefix (?canon ! k) @ m"
    by (rule run_failE)
  moreover have "failed_prefix op' = failed_prefix (?canon ! k) \<and> m' = m"
    if "err = failed_prefix op' @ m'" for op' m'
    using that err failed_prefix_inj [of op' m' "?canon ! k" m] by simp
  ultimately show ?thesis
    by blast
qed

theorem HandleUpdate_error_names_operation_witness:
  "\<exists>before op m.
      issued (snd (HandleUpdate (table_externals ex_other) id [] [ex_block1]
         (ex_state {} [None, Some ''boom''])))
        = issued (ex_state {} [None, Some ''boom'']) @ before @ [(op, Some m)]
      \<and> ''createHostRoute failed: boom'' = failed_prefix op @ m"
proof -
  have h: "HandleUpdate (table_externals ex_other) id [] [ex_block1]
      (ex_state {} [None, Some ''boom''])
     = (Some ''createHostRoute failed: boom'',
        snd (HandleUpdate (table_externals ex_other) id [] [ex_block1]
          (ex_state {} [None, Some ''boom''])))"
    by (simp add: HandleUpdate_add_host_fails)
  show ?thesis
    using HandleUpdate_error_names_operation [OF h] by blast
qed

text \<open>
  C5. For every \<open>A\<close>, \<open>removeCommon A A\<close> returns two empty results; and when \<open>prev\<close> and
  \<open>curr\<close> are equal element by element, \<open>HandleUpdate\<close> returns success and leaves the state
  as it was, the world and the list of issued operations with it: it calls none of the
  four operations.
\<close>

theorem HandleUpdate_no_change:
  assumes "list_all2 Equal (NewCIDRs prevRanges) (NewCIDRs currRanges)"
  shows "removeCommon A A = ([], [])
       \<and> removeCommon (NewCIDRs prevRanges) (NewCIDRs currRanges) = ([], [])
       \<and> HandleUpdate ext NewCIDRs prevRanges currRanges s = (None, s)"
proof -
  have "list_all2 Equal A A"
    by (simp add: list_all2_same Equal_refl)
  then have "removeCommon A A = ([], [])"
    by (simp add: removeCommon_diff_rest diff_rest_Equal)
  moreover have "removeCommon (NewCIDRs prevRanges) (NewCIDRs currRanges) = ([], [])"
    using assms by (simp add: removeCommon_diff_rest diff_rest_Equal)
  ultimately show ?thesis
    by (simp add: HandleUpdate_def)
qed

theorem HandleUpdate_no_change_witness:
  "list_all2 Equal (id ex_prev) (id ex_prev)
   \<and> removeCommon ex_prev ex_prev = ([], [])
   \<and> HandleUpdate (table_externals ex_other) id ex_prev ex_prev
        (ex_state {''10.0.0.0/24'', ''10.0.2.0/24''} [Some ''boom''])
      = (None, ex_state {''10.0.0.0/24'', ''10.0.2.0/24''} [Some ''boom''])"
proof -
  have h: "list_all2 Equal (id ex_prev) (id ex_prev)"
    by (simp add: list_all2_same Equal_refl)
  show ?thesis
    using h HandleUpdate_no_change [where NewCIDRs = id and prevRanges = ex_prev
        and currRanges = ex_prev and A = ex_prev and ext = "table_externals ex_other"
        and s = "ex_state {''10.0.0.0/24'', ''10.0.2.0/24''} [Some ''boom'']"]
    by simp
qed

text \<open>
  C6. For every \<open>B\<close>, \<open>removeCommon [] B\<close> returns an empty \<open>onlyPrev\<close> and \<open>B\<close> as
  \<open>onlyCurr\<close>; for every \<open>A\<close>, \<open>removeCommon A []\<close> returns \<open>A\<close> as \<open>onlyPrev\<close> and an
  empty \<open>onlyCurr\<close>.
\<close>

theorem removeCommon_empty:
  "removeCommon [] B = ([], B) \<and> removeCommon A [] = (A, [])"
  by (simp add: removeCommon_def removeCommon_loop_leave)

text \<open>
  C7. For every canonical string \<open>s\<close> of a block, that is the string of a block with a
  prefix length of at most 32, \<open>parseCIDR\<close> succeeds on \<open>s\<close>, and writing the network it
  returns with \<open>IPNet.String\<close> gives \<open>s\<close> again.
\<close>

theorem parseCIDR_round_trip:
  assumes "valid_CIDR c"
  shows "\<exists>n. parseCIDR (ParseCIDR other) (CIDR_String c) = Inr n
            \<and> IPNet_String other n = CIDR_String c"
  using parseCIDR_valid [OF assms, of other] IPNet_String_parsed [OF assms, of other]
  by (intro exI conjI)

theorem parseCIDR_round_trip_witness:
  "\<exists>n. parseCIDR (ParseCIDR ex_other) ''10.0.1.0/24'' = Inr n
      \<and> IPNet_String ex_other n = ''10.0.1.0/24''"
  using parseCIDR_round_trip [OF valid_ex_blocks(2), of ex_other]
  by (simp add: CIDR_String_ex_block1)



text \<open>
  C9. For every pair of inputs and all results of the calls outside, \<open>HandleUpdate\<close> leaves
  the tracker as it is: its four fields after the call are those before the call.
\<close>

theorem HandleUpdate_tracker_unchanged:
  "tracker (snd (HandleUpdate ext NewCIDRs prevRanges currRanges s)) = tracker s"
  using HandleUpdate_run [of ext NewCIDRs prevRanges currRanges s
      "fst (HandleUpdate ext NewCIDRs prevRanges currRanges s)"
      "snd (HandleUpdate ext NewCIDRs prevRanges currRanges s)"]
  by simp

text \<open>
  C10. When the loop of \<open>removeCommon\<close> compares two blocks \<open>a[i]\<close> and \<open>b[j]\<close> that are
  not equal and end at the same address, the iteration appends \<open>b[j]\<close> to the second
  result and advances \<open>j\<close> only: \<open>i\<close> and the first result are after it what they were
  before. So in the second result of the loop \<open>b[j]\<close> comes right after what was there,
  before anything the loop does with \<open>a[i]\<close>; and \<open>a[i]\<close>, which is still to be compared,
  is in what the loop then adds to the first result unless a later block of \<open>b\<close> is equal
  to it.
\<close>

theorem removeCommon_equal_end:
  assumes "i < length a" and "j < length b"
    and "\<not> Equal (a ! i) (b ! j)" and "End (a ! i) = End (b ! j)"
  shows "removeCommon_step a b (i, j, newA, newB) = (i, j + 1, newA, newB @ [b ! j])
       \<and> removeCommon_loop a b (i, j, newA, newB) =
           (newA @ fst (removeCommon_loop a b (i, j + 1, [], [])),
            newB @ b ! j # snd (removeCommon_loop a b (i, j + 1, [], [])))
       \<and> (a ! i \<in> set (fst (removeCommon_loop a b (i, j + 1, [], [])))
          \<or> list_ex (Equal (a ! i)) (drop (j + 1) b))"
proof -
  have st: "removeCommon_step a b (i, j, newA, newB) = (i, j + 1, newA, newB @ [b ! j])"
    using assms(3,4) by (simp add: removeCommon_step_def)
  have "removeCommon_loop a b (i, j, newA, newB) =
          removeCommon_loop a b (i, j + 1, newA, newB @ [b ! j])"
    using removeCommon_loop_continue [OF assms(1,2)] st by simp
  then have l: "removeCommon_loop a b (i, j, newA, newB) =
           (newA @ fst (removeCommon_loop a b (i, j + 1, [], [])),
            newB @ b ! j # snd (removeCommon_loop a b (i, j + 1, [], [])))"
    by (simp add: removeCommon_loop_diff_rest)
  have "drop i a = a ! i # drop (Suc i) a"
    using assms(1) by (simp add: Cons_nth_drop_Suc)
  then have "a ! i \<in> set (fst (removeCommon_loop a b (i, j + 1, [], [])))
          \<or> list_ex (Equal (a ! i)) (drop (j + 1) b)"
    using diff_rest_first [of "a ! i" "drop (Suc i) a" "drop (j + 1) b"]
    by (simp add: removeCommon_loop_diff_rest)
  with st l show ?thesis by simp
qed

theorem removeCommon_equal_end_witness:
  "\<not> Equal ex_block0 ex_half \<and> End ex_block0 = End ex_half
   \<and> removeCommon_step [ex_block0] [ex_half] (0, 0, [], []) = (0, 1, [], [ex_half])
   \<and> removeCommon [ex_block0] [ex_half] = ([ex_block0], [ex_half])"
proof -
  have e: "\<not> Equal ex_block0 ex_half" "End ex_block0 = End ex_half"
    by (simp_all add: Equal_def End_ex_blocks) (simp add: Start_def ex_block_defs ex_half_def)
  have "removeCommon_loop [ex_block0] [ex_half] (0, 1, [], []) = ([ex_block0], [])"
    by (simp add: removeCommon_loop_leave)
  with removeCommon_equal_end [of 0 "[ex_block0]" 0 "[ex_half]" "[]" "[]"] e
  show ?thesis by (simp add: removeCommon_def)
qed

end
